theory Spec2Isabelle
  imports Main
begin

section \<open>The overlay keyboard dispatcher\<close>

text \<open>
  A shallow embedding of \<^verbatim>\<open>src/cdk/overlay/keyboard/overlay-keyboard-dispatcher.ts\<close>.
  The class \<^verbatim>\<open>OverlayKeyboardDispatcher\<close> keeps the list of attached overlays and one
  capture-phase \<^verbatim>\<open>keydown\<close> listener on the document body; the listener picks one
  overlay for every event and pushes the event into that overlay's
  \<^verbatim>\<open>_keydownEvents\<close> subject.
\<close>

subsection \<open>Data\<close>

text \<open>
  A DOM node and an \<^verbatim>\<open>OverlayRef\<close> object are references; two overlays are the same
  overlay exactly when their references are equal (JavaScript's \<^verbatim>\<open>===\<close> on objects).
\<close>

type_synonym node = nat
type_synonym OverlayRef = nat

text \<open>\<^verbatim>\<open>KeyboardEvent.target\<close> has the type \<^verbatim>\<open>EventTarget | null\<close>; \<open>None\<close> is \<^verbatim>\<open>null\<close>.\<close>

record KeyboardEvent =
  target :: "node option"
  keyCode :: nat

text \<open>
  What the dispatcher reads from its collaborators, none of which it changes: the field
  \<^verbatim>\<open>overlayElement\<close> of every overlay, and the DOM's \<^verbatim>\<open>Node.contains\<close>, taken as a
  parameter (the containment relation of whatever document the overlays live in).
\<close>

record Host =
  overlayElement :: "OverlayRef \<Rightarrow> node"
  contains :: "node \<Rightarrow> node option \<Rightarrow> bool"

text \<open>
  The state the methods read and write.
  \<^item> \<open>attachedOverlays\<close> is the field \<^verbatim>\<open>_attachedOverlays\<close>.
  \<^item> \<open>isAttached\<close> is the field \<^verbatim>\<open>_isAttached\<close>; it is declared without an initialiser,
    so it starts as \<^verbatim>\<open>undefined\<close>, which is \<open>None\<close> here.
  \<^item> \<open>bodyKeydownCapture\<close> tells whether \<^verbatim>\<open>_keydownListener\<close> is at present among the
    capture-phase \<^verbatim>\<open>keydown\<close> listeners of \<^verbatim>\<open>document.body\<close>. Adding a listener that is
    already there and removing one that is not are both without effect in the DOM, so a
    boolean is all there is to know.
  \<^item> \<open>keydownEvents h\<close> is the sequence of events pushed so far, oldest first, into the
    \<^verbatim>\<open>_keydownEvents\<close> subject of the overlay \<open>h\<close> through \<^verbatim>\<open>next\<close>. What the subscribers
    of a subject do with an event is their own business and is not modelled.
  The document is taken to have a body, so that \<^verbatim>\<open>addEventListener\<close> and
  \<^verbatim>\<open>removeEventListener\<close>, which never throw, are always reached.
\<close>

record Dispatcher =
  attachedOverlays :: "OverlayRef list"
  isAttached :: "bool option"
  bodyKeydownCapture :: bool
  keydownEvents :: "OverlayRef \<Rightarrow> KeyboardEvent list"

datatype error = TypeError

subsection \<open>The JavaScript primitives the class uses\<close>

text \<open>Truthiness of a value of type \<^verbatim>\<open>boolean | undefined\<close>.\<close>

fun truthy :: "bool option \<Rightarrow> bool" where
  "truthy None = False"
| "truthy (Some b) = b"

text \<open>
  \<^verbatim>\<open>Array.prototype.indexOf\<close>: the index of the first element strictly equal to \<open>x\<close>,
  counting from \<open>k\<close> at the head of the list, or \<open>-1\<close>.
\<close>

fun indexOf_from :: "'a list \<Rightarrow> 'a \<Rightarrow> int \<Rightarrow> int" where
  "indexOf_from [] x k = - 1"
| "indexOf_from (y # ys) x k = (if y = x then k else indexOf_from ys x (k + 1))"

definition indexOf :: "'a list \<Rightarrow> 'a \<Rightarrow> int" where
  "indexOf xs x = indexOf_from xs x 0"

text \<open>
  \<^verbatim>\<open>Array.prototype.splice(start, deleteCount)\<close> with no items to insert: the array that
  is left. A negative \<open>start\<close> counts from the end, and both arguments are clamped to the
  array.
\<close>

definition splice :: "'a list \<Rightarrow> int \<Rightarrow> int \<Rightarrow> 'a list" where
  "splice xs start deleteCount =
     (let len = int (length xs);
          actualStart = (if start < 0 then max (len + start) 0 else min start len);
          actualDeleteCount = min (max deleteCount 0) (len - actualStart)
      in take (nat actualStart) xs @ drop (nat (actualStart + actualDeleteCount)) xs)"

text \<open>Reading \<^verbatim>\<open>xs[i]\<close>: \<^verbatim>\<open>undefined\<close> (\<open>None\<close>) outside the array.\<close>

definition array_at :: "'a list \<Rightarrow> int \<Rightarrow> 'a option" where
  "array_at xs i = (if 0 \<le> i \<and> i < int (length xs) then Some (xs ! nat i) else None)"

subsection \<open>The methods\<close>

text \<open>The state right after the constructor.\<close>

definition init :: Dispatcher where
  "init = \<lparr>attachedOverlays = [], isAttached = None, bodyKeydownCapture = False,
           keydownEvents = (\<lambda>_. [])\<rparr>"

text \<open>\<^verbatim>\<open>_detach\<close>\<close>

definition detach :: "Dispatcher \<Rightarrow> Dispatcher" where
  "detach s =
     (if truthy (isAttached s)
      then s\<lparr>bodyKeydownCapture := False, isAttached := Some False\<rparr>
      else s)"

definition ngOnDestroy :: "Dispatcher \<Rightarrow> Dispatcher" where
  "ngOnDestroy s = detach s"

text \<open>\<^verbatim>\<open>add\<close>\<close>

definition add :: "OverlayRef \<Rightarrow> Dispatcher \<Rightarrow> Dispatcher" where
  "add overlayRef s =
     (let s1 = (if \<not> truthy (isAttached s)
                then s\<lparr>bodyKeydownCapture := True, isAttached := Some True\<rparr>
                else s)
      in s1\<lparr>attachedOverlays := attachedOverlays s1 @ [overlayRef]\<rparr>)"

text \<open>\<^verbatim>\<open>remove\<close>\<close>

definition remove :: "OverlayRef \<Rightarrow> Dispatcher \<Rightarrow> Dispatcher" where
  "remove overlayRef s =
     (let index = indexOf (attachedOverlays s) overlayRef;
          s1 = (if index > - 1
                then s\<lparr>attachedOverlays := splice (attachedOverlays s) index 1\<rparr>
                else s)
      in if length (attachedOverlays s1) = 0 then detach s1 else s1)"

text \<open>
  \<^verbatim>\<open>_selectOverlayFromEvent\<close>. \<^verbatim>\<open>find\<close> gives the first element the callback accepts, or
  \<^verbatim>\<open>undefined\<close>; an overlay object is truthy, so \<^verbatim>\<open>||\<close> takes its right operand exactly
  when \<^verbatim>\<open>find\<close> found nothing. The result is \<^verbatim>\<open>undefined\<close> (\<open>None\<close>) when the right
  operand reads outside the array.
\<close>

definition selectOverlayFromEvent :: "Host \<Rightarrow> Dispatcher \<Rightarrow> KeyboardEvent \<Rightarrow> OverlayRef option" where
  "selectOverlayFromEvent host s event =
     (let targetedOverlay =
            find (\<lambda>overlay. Some (overlayElement host overlay) = target event \<or>
                            contains host (overlayElement host overlay) (target event))
                 (attachedOverlays s)
      in case targetedOverlay of
           Some overlay \<Rightarrow> Some overlay
         | None \<Rightarrow> array_at (attachedOverlays s) (int (length (attachedOverlays s)) - 1))"

text \<open>
  \<^verbatim>\<open>_keydownListener\<close>. Reading \<^verbatim>\<open>_keydownEvents\<close> of \<^verbatim>\<open>undefined\<close> throws a
  \<^verbatim>\<open>TypeError\<close>.
\<close>

definition keydownListener :: "Host \<Rightarrow> Dispatcher \<Rightarrow> KeyboardEvent \<Rightarrow> error + Dispatcher" where
  "keydownListener host s event =
     (if length (attachedOverlays s) \<noteq> 0
      then (case selectOverlayFromEvent host s event of
              None \<Rightarrow> Inl TypeError
            | Some overlay \<Rightarrow>
                Inr (s\<lparr>keydownEvents :=
                         (keydownEvents s)(overlay := keydownEvents s overlay @ [event])\<rparr>))
      else Inr s)"

text \<open>
  A \<^verbatim>\<open>keydown\<close> event reaching the document body: the browser calls the listener if it is
  bound and does nothing otherwise.
\<close>

definition body_keydown :: "Host \<Rightarrow> Dispatcher \<Rightarrow> KeyboardEvent \<Rightarrow> error + Dispatcher" where
  "body_keydown host s event =
     (if bodyKeydownCapture s then keydownListener host s event else Inr s)"

subsection \<open>Sequences of calls\<close>

datatype call = Add OverlayRef | Remove OverlayRef

fun do_call :: "call \<Rightarrow> Dispatcher \<Rightarrow> Dispatcher" where
  "do_call (Add h) s = add h s"
| "do_call (Remove h) s = remove h s"

text \<open>The states after each call of a sequence, in order.\<close>

fun states_after :: "call list \<Rightarrow> Dispatcher \<Rightarrow> Dispatcher list" where
  "states_after [] s = []"
| "states_after (c # cs) s = do_call c s # states_after cs (do_call c s)"

text \<open>
  A sequence of calls that never registers an overlay which is in the registry at that
  moment.
\<close>

fun adds_fresh :: "call list \<Rightarrow> Dispatcher \<Rightarrow> bool" where
  "adds_fresh [] s = True"
| "adds_fresh (Add h # cs) s = (h \<notin> set (attachedOverlays s) \<and> adds_fresh cs (add h s))"
| "adds_fresh (Remove h # cs) s = adds_fresh cs (remove h s)"

text \<open>
  The private flag tells the truth about the DOM: \<^verbatim>\<open>_isAttached\<close> is truthy exactly when
  the listener is bound.
\<close>

definition in_sync :: "Dispatcher \<Rightarrow> bool" where
  "in_sync s = (truthy (isAttached s) = bodyKeydownCapture s)"

text \<open>The states the dispatcher can be in: whatever its methods and the browser make of \<open>init\<close>.\<close>

inductive reachable :: "Host \<Rightarrow> Dispatcher \<Rightarrow> bool" for host :: Host where
  r_init: "reachable host init"
| r_add: "reachable host s \<Longrightarrow> reachable host (add h s)"
| r_remove: "reachable host s \<Longrightarrow> reachable host (remove h s)"
| r_destroy: "reachable host s \<Longrightarrow> reachable host (ngOnDestroy s)"
| r_keydown: "reachable host s \<Longrightarrow> body_keydown host s e = Inr s' \<Longrightarrow> reachable host s'"

text \<open>The containment test of the callback in \<^verbatim>\<open>_selectOverlayFromEvent\<close>.\<close>

abbreviation hit :: "Host \<Rightarrow> KeyboardEvent \<Rightarrow> OverlayRef \<Rightarrow> bool" where
  "hit host event h \<equiv>
     (Some (overlayElement host h) = target event \<or>
      contains host (overlayElement host h) (target event))"

text \<open>The state after \<open>event\<close> has been pushed once into the subject of \<open>h\<close>.\<close>

abbreviation delivered :: "Dispatcher \<Rightarrow> OverlayRef \<Rightarrow> KeyboardEvent \<Rightarrow> Dispatcher" where
  "delivered s h event \<equiv>
     s\<lparr>keydownEvents := (keydownEvents s)(h := keydownEvents s h @ [event])\<rparr>"

subsection \<open>A small document to run the methods on\<close>

text \<open>
  Overlay \<open>h\<close> has the root element \<open>10 * h\<close>. The root of overlay 2 is an ancestor of
  the root of overlay 1, node 11 lies inside the root of overlay 1, and the root of
  overlay 3 stands apart.
\<close>

definition nested_host :: Host where
  "nested_host =
     \<lparr>overlayElement = (\<lambda>h. 10 * h),
      contains = (\<lambda>root t.
         (root = 10 \<and> (t = Some 10 \<or> t = Some 11)) \<or>
         (root = 20 \<and> (t = Some 20 \<or> t = Some 10 \<or> t = Some 11)) \<or>
         (root = 30 \<and> t = Some 30))\<rparr>"

definition key_at :: "node \<Rightarrow> KeyboardEvent" where
  "key_at n = \<lparr>target = Some n, keyCode = 27\<rparr>"

text \<open>
  Two states with the listener bound: overlays 1 and 2 open, and overlays 1 to 4 open.
\<close>

definition two_open :: Dispatcher where
  "two_open = \<lparr>attachedOverlays = [1, 2], isAttached = Some True, bodyKeydownCapture = True,
                keydownEvents = (\<lambda>_. [])\<rparr>"

definition four_open :: Dispatcher where
  "four_open = \<lparr>attachedOverlays = [1, 2, 3, 4], isAttached = Some True,
                 bodyKeydownCapture = True, keydownEvents = (\<lambda>_. [])\<rparr>"

section \<open>Facts about the primitives\<close>

lemma indexOf_from_absent: "x \<notin> set xs \<Longrightarrow> indexOf_from xs x k = - 1"
  by (induction xs arbitrary: k) auto

lemma indexOf_from_present:
  "x \<in> set xs \<Longrightarrow>
   \<exists>pre post. xs = pre @ x # post \<and> x \<notin> set pre \<and> indexOf_from xs x k = k + int (length pre)"
proof (induction xs arbitrary: k)
  case Nil
  then show ?case by simp
next
  case (Cons y ys)
  show ?case
  proof (cases "y = x")
    case True
    then have "y # ys = [] @ x # ys \<and> x \<notin> set [] \<and> indexOf_from (y # ys) x k = k + int (length ([]::'a list))"
      by simp
    then show ?thesis by blast
  next
    case False
    with Cons.prems have "x \<in> set ys" by simp
    from Cons.IH [OF this, of "k + 1"] obtain pre post where
      p: "ys = pre @ x # post" "x \<notin> set pre" "indexOf_from ys x (k + 1) = k + 1 + int (length pre)"
      by blast
    from p False have "y # ys = (y # pre) @ x # post \<and> x \<notin> set (y # pre) \<and>
        indexOf_from (y # ys) x k = k + int (length (y # pre))"
      by simp
    then show ?thesis by blast
  qed
qed

lemma splice_one: "splice (pre @ x # post) (int (length pre)) 1 = pre @ post"
proof -
  have "nat (int (length pre) + 1) = Suc (length pre)" by simp
  then show ?thesis by (simp add: splice_def Let_def)
qed

lemma array_at_last: "xs \<noteq> [] \<Longrightarrow> array_at xs (int (length xs) - 1) = Some (last xs)"
proof -
  assume ne: "xs \<noteq> []"
  then have "nat (int (length xs) - 1) = length xs - 1" by simp
  with ne show ?thesis by (simp add: array_at_def last_conv_nth)
qed

lemma array_at_empty: "array_at [] i = None"
  by (simp add: array_at_def)

section \<open>Facts about the methods\<close>

lemma indexOf_from_split:
  "x \<notin> set pre \<Longrightarrow> indexOf_from (pre @ x # post) x k = k + int (length pre)"
  by (induction pre arbitrary: k) auto

lemma find_first_split:
  "\<exists>x \<in> set xs. P x \<Longrightarrow>
   \<exists>pre h post. xs = pre @ h # post \<and> (\<forall>x \<in> set pre. \<not> P x) \<and> P h \<and> find P xs = Some h"
proof (induction xs)
  case Nil
  then show ?case by simp
next
  case (Cons y ys)
  show ?case
  proof (cases "P y")
    case True
    then have "y # ys = [] @ y # ys \<and> (\<forall>x \<in> set []. \<not> P x) \<and> P y \<and> find P (y # ys) = Some y"
      by simp
    then show ?thesis by blast
  next
    case False
    with Cons.prems have "\<exists>x \<in> set ys. P x" by simp
    from Cons.IH [OF this] obtain pre h post where
      p: "ys = pre @ h # post" "\<forall>x \<in> set pre. \<not> P x" "P h" "find P ys = Some h"
      by blast
    with False have "y # ys = (y # pre) @ h # post \<and> (\<forall>x \<in> set (y # pre). \<not> P x) \<and> P h \<and>
        find P (y # ys) = Some h"
      by simp
    then show ?thesis by blast
  qed
qed

lemma find_no_hit: "\<forall>x \<in> set xs. \<not> P x \<Longrightarrow> find P xs = None"
  by (induction xs) auto

lemma detach_registry: "attachedOverlays (detach s) = attachedOverlays s"
  by (simp add: detach_def)

lemma detach_keydownEvents: "keydownEvents (detach s) = keydownEvents s"
  by (simp add: detach_def)

lemma detach_unbinds: "in_sync s \<Longrightarrow> \<not> bodyKeydownCapture (detach s) \<and> \<not> truthy (isAttached (detach s))"
  by (auto simp: detach_def in_sync_def)

lemma detach_in_sync: "in_sync s \<Longrightarrow> in_sync (detach s)"
  by (auto simp: detach_def in_sync_def)

lemma detach_not_attached: "\<not> truthy (isAttached s) \<Longrightarrow> detach s = s"
  by (simp add: detach_def)

lemma add_registry: "attachedOverlays (add h s) = attachedOverlays s @ [h]"
  by (simp add: add_def Let_def)

lemma add_keydownEvents: "keydownEvents (add h s) = keydownEvents s"
  by (simp add: add_def Let_def)

lemma add_in_sync: "in_sync s \<Longrightarrow> in_sync (add h s)"
  by (auto simp: add_def Let_def in_sync_def)

lemma add_bound: "in_sync s \<Longrightarrow> bodyKeydownCapture (add h s) \<and> truthy (isAttached (add h s))"
  by (auto simp: add_def Let_def in_sync_def)

lemma remove_absent:
  "h \<notin> set (attachedOverlays s) \<Longrightarrow>
   remove h s = (if attachedOverlays s = [] then detach s else s)"
  by (simp add: remove_def indexOf_def indexOf_from_absent)

lemma remove_present:
  assumes "attachedOverlays s = pre @ h # post" and "h \<notin> set pre"
  shows "remove h s =
         (if pre @ post = [] then detach (s\<lparr>attachedOverlays := []\<rparr>)
          else s\<lparr>attachedOverlays := pre @ post\<rparr>)"
proof -
  have ix: "indexOf (attachedOverlays s) h = int (length pre)"
    using assms by (simp add: indexOf_def indexOf_from_split)
  have sp: "splice (attachedOverlays s) (int (length pre)) 1 = pre @ post"
    using assms(1) splice_one by simp
  have "remove h s =
        (if length (pre @ post) = 0 then detach (s\<lparr>attachedOverlays := pre @ post\<rparr>)
         else s\<lparr>attachedOverlays := pre @ post\<rparr>)"
    unfolding remove_def Let_def ix sp by simp
  then show ?thesis by simp
qed

lemma remove_registry: "attachedOverlays (remove h s) = remove1 h (attachedOverlays s)"
proof (cases "h \<in> set (attachedOverlays s)")
  case False
  then show ?thesis by (simp add: remove_absent detach_registry remove1_idem)
next
  case True
  from indexOf_from_present [OF this, of 0] obtain pre post where
    p: "attachedOverlays s = pre @ h # post" "h \<notin> set pre" by blast
  have "remove1 h (pre @ h # post) = pre @ post" using p(2) by (simp add: remove1_append)
  with remove_present [OF p] p(1) show ?thesis by (simp add: detach_registry)
qed

lemma remove_keydownEvents: "keydownEvents (remove h s) = keydownEvents s"
  by (simp add: remove_def Let_def detach_def)

lemma remove_in_sync: "in_sync s \<Longrightarrow> in_sync (remove h s)"
  by (auto simp: remove_def Let_def detach_def in_sync_def)

lemma remove_flags:
  "attachedOverlays (remove h s) \<noteq> [] \<Longrightarrow>
   bodyKeydownCapture (remove h s) = bodyKeydownCapture s \<and> isAttached (remove h s) = isAttached s"
  by (auto simp: remove_def Let_def detach_def split: if_splits)

lemma remove_empty_unbinds:
  "in_sync s \<Longrightarrow> attachedOverlays (remove h s) = [] \<Longrightarrow>
   \<not> bodyKeydownCapture (remove h s) \<and> \<not> truthy (isAttached (remove h s))"
  by (auto simp: remove_def Let_def detach_def in_sync_def split: if_splits)

lemma keydownListener_in_sync: "in_sync s \<Longrightarrow> keydownListener host s e = Inr s' \<Longrightarrow> in_sync s'"
  by (auto simp: keydownListener_def in_sync_def split: if_splits option.splits)

lemma reachable_in_sync: "reachable host s \<Longrightarrow> in_sync s"
proof (induction rule: reachable.induct)
  case r_init
  show ?case by (simp add: in_sync_def init_def)
next
  case (r_add s h)
  then show ?case by (simp add: add_in_sync)
next
  case (r_remove s h)
  then show ?case by (simp add: remove_in_sync)
next
  case (r_destroy s)
  then show ?case by (simp add: ngOnDestroy_def detach_in_sync)
next
  case (r_keydown s e s')
  then show ?case
    by (auto simp: body_keydown_def split: if_splits dest: keydownListener_in_sync)
qed

lemma select_Some_listener:
  "selectOverlayFromEvent host s e = Some h \<Longrightarrow> attachedOverlays s \<noteq> [] \<Longrightarrow>
   keydownListener host s e = Inr (delivered s h e)"
  by (simp add: keydownListener_def)

lemma reachable_bound_nonempty:
  "reachable host s \<Longrightarrow> truthy (isAttached s) \<Longrightarrow> attachedOverlays s \<noteq> []"
proof (induction rule: reachable.induct)
  case r_init
  then show ?case by (simp add: init_def)
next
  case (r_add s h)
  show ?case by (simp add: add_registry)
next
  case (r_remove s h)
  from r_remove.hyps have "in_sync s" by (rule reachable_in_sync)
  with r_remove.prems remove_empty_unbinds [of s h] show ?case by blast
next
  case (r_destroy s)
  then show ?case by (simp add: ngOnDestroy_def detach_def split: if_splits)
next
  case (r_keydown s e s')
  then show ?case
    by (auto simp: body_keydown_def keydownListener_def split: if_splits option.splits)
qed

lemma add_lifecycle:
  "in_sync s \<Longrightarrow> bodyKeydownCapture (add h s) = (attachedOverlays (add h s) \<noteq> [])"
  by (simp add: add_bound add_registry)

lemma remove_lifecycle:
  assumes "in_sync s" and "bodyKeydownCapture s = (attachedOverlays s \<noteq> [])"
  shows "bodyKeydownCapture (remove h s) = (attachedOverlays (remove h s) \<noteq> [])"
proof (cases "attachedOverlays (remove h s) = []")
  case True
  with remove_empty_unbinds [OF assms(1) True] show ?thesis by simp
next
  case False
  then have "remove1 h (attachedOverlays s) \<noteq> []" by (simp add: remove_registry)
  then have "attachedOverlays s \<noteq> []" by auto
  with assms(2) remove_flags [OF False] False show ?thesis by simp
qed

lemma do_call_lifecycle:
  "in_sync s \<Longrightarrow> bodyKeydownCapture s = (attachedOverlays s \<noteq> []) \<Longrightarrow>
   in_sync (do_call c s) \<and>
   bodyKeydownCapture (do_call c s) = (attachedOverlays (do_call c s) \<noteq> [])"
  by (cases c) (simp_all add: add_in_sync remove_in_sync add_lifecycle remove_lifecycle)

lemma states_after_lifecycle:
  "in_sync s \<Longrightarrow> bodyKeydownCapture s = (attachedOverlays s \<noteq> []) \<Longrightarrow>
   s' \<in> set (states_after cs s) \<Longrightarrow>
   in_sync s' \<and> bodyKeydownCapture s' = (attachedOverlays s' \<noteq> [])"
proof (induction cs arbitrary: s)
  case Nil
  then show ?case by simp
next
  case (Cons c cs)
  from do_call_lifecycle [OF Cons.prems(1,2), of c]
  have step: "in_sync (do_call c s)"
    "bodyKeydownCapture (do_call c s) = (attachedOverlays (do_call c s) \<noteq> [])"
    by simp_all
  from Cons.prems(3) have "s' = do_call c s \<or> s' \<in> set (states_after cs (do_call c s))"
    by simp
  then show ?case
  proof
    assume "s' = do_call c s"
    with step show ?thesis by simp
  next
    assume "s' \<in> set (states_after cs (do_call c s))"
    with Cons.IH [OF step] show ?thesis by simp
  qed
qed

lemma init_lifecycle: "in_sync init \<and> bodyKeydownCapture init = (attachedOverlays init \<noteq> [])"
  by (simp add: in_sync_def init_def)

lemma states_after_example:
  "states_after [Add 1, Add 2, Remove 1, Remove 2] init =
     [\<lparr>attachedOverlays = [1], isAttached = Some True, bodyKeydownCapture = True, keydownEvents = (\<lambda>_. [])\<rparr>,
      \<lparr>attachedOverlays = [1, 2], isAttached = Some True, bodyKeydownCapture = True, keydownEvents = (\<lambda>_. [])\<rparr>,
      \<lparr>attachedOverlays = [2], isAttached = Some True, bodyKeydownCapture = True, keydownEvents = (\<lambda>_. [])\<rparr>,
      \<lparr>attachedOverlays = [], isAttached = Some False, bodyKeydownCapture = False, keydownEvents = (\<lambda>_. [])\<rparr>]"
  by (simp add: init_def add_def remove_def detach_def indexOf_def splice_def Let_def)

lemma states_after_distinct:
  "distinct (attachedOverlays s) \<Longrightarrow> adds_fresh cs s \<Longrightarrow> s' \<in> set (states_after cs s) \<Longrightarrow>
   distinct (attachedOverlays s')"
proof (induction cs s arbitrary: s' rule: adds_fresh.induct)
  case (1 s)
  then show ?case by simp
next
  case (2 h cs s)
  from "2.prems"(1,2) have d: "distinct (attachedOverlays (add h s))"
    by (simp add: add_registry)
  from "2.prems"(3) have "s' = add h s \<or> s' \<in> set (states_after cs (add h s))" by simp
  then show ?case
  proof
    assume "s' = add h s"
    with d show ?thesis by simp
  next
    assume "s' \<in> set (states_after cs (add h s))"
    with "2.IH" d "2.prems"(2) show ?thesis by simp
  qed
next
  case (3 h cs s)
  from "3.prems"(1) have d: "distinct (attachedOverlays (remove h s))"
    by (simp add: remove_registry)
  from "3.prems"(3) have "s' = remove h s \<or> s' \<in> set (states_after cs (remove h s))" by simp
  then show ?case
  proof
    assume "s' = remove h s"
    with d show ?thesis by simp
  next
    assume "s' \<in> set (states_after cs (remove h s))"
    with "3.IH" d "3.prems"(2) show ?thesis by simp
  qed
qed

section \<open>Target resolution\<close>

text \<open>
  C1. Whenever the root element of some registered overlay is the event's target or
  contains it, \<^verbatim>\<open>_selectOverlayFromEvent\<close> returns the first such overlay in the order of
  the registry (no overlay before it passes the containment test, whatever the overlays
  after it do), and the listener pushes the event into that overlay's subject.
\<close>

theorem select_first_containing:
  assumes "\<exists>h \<in> set (attachedOverlays s). hit host e h"
  shows "\<exists>pre h post. attachedOverlays s = pre @ h # post \<and>
           (\<forall>x \<in> set pre. \<not> hit host e x) \<and> hit host e h \<and>
           selectOverlayFromEvent host s e = Some h \<and>
           keydownListener host s e = Inr (delivered s h e)"
proof -
  from find_first_split [of "attachedOverlays s" "hit host e", OF assms]
  obtain pre h post where
    p: "attachedOverlays s = pre @ h # post" "\<forall>x \<in> set pre. \<not> hit host e x" "hit host e h"
       "find (hit host e) (attachedOverlays s) = Some h"
    by blast
  from p(4) have sel: "selectOverlayFromEvent host s e = Some h"
    by (simp add: selectOverlayFromEvent_def)
  from p(1) have "attachedOverlays s \<noteq> []" by simp
  with sel have "keydownListener host s e = Inr (delivered s h e)"
    by (rule select_Some_listener)
  with p sel show ?thesis by blast
qed

theorem select_first_containing_witness:
  "(\<exists>h \<in> set (attachedOverlays (add 2 (add 1 init))). hit nested_host (key_at 11) h) \<and>
   hit nested_host (key_at 11) 2 \<and>
   selectOverlayFromEvent nested_host (add 2 (add 1 init)) (key_at 11) = Some 1"
proof -
  have reg: "attachedOverlays (add 2 (add 1 init)) = [1, 2]"
    by (simp add: add_registry init_def)
  have h1: "hit nested_host (key_at 11) 1" and h2: "hit nested_host (key_at 11) 2"
    by (simp_all add: nested_host_def key_at_def)
  have ex: "\<exists>h \<in> set (attachedOverlays (add 2 (add 1 init))). hit nested_host (key_at 11) h"
    using reg h1 by simp
  from select_first_containing [OF ex] obtain pre h post where
    p: "attachedOverlays (add 2 (add 1 init)) = pre @ h # post"
       "\<forall>x \<in> set pre. \<not> hit nested_host (key_at 11) x"
       "selectOverlayFromEvent nested_host (add 2 (add 1 init)) (key_at 11) = Some h"
    by blast
  have "pre = []"
  proof (cases pre)
    case Nil
    then show ?thesis .
  next
    case (Cons a as)
    with p(1) reg have "a = 1" by simp
    with Cons p(2) h1 show ?thesis by simp
  qed
  with p(1) reg have "h = 1" by simp
  with p(3) ex h2 show ?thesis by simp
qed

text \<open>
  C2. When the registry is not empty and no registered overlay's root element is the
  event's target or contains it, \<^verbatim>\<open>_selectOverlayFromEvent\<close> returns the last overlay of
  the registry, the one attached most recently, and the listener pushes the event into
  that overlay's subject.
\<close>

theorem select_fallback_most_recent:
  assumes "attachedOverlays s \<noteq> []"
    and "\<forall>h \<in> set (attachedOverlays s). \<not> hit host e h"
  shows "selectOverlayFromEvent host s e = Some (last (attachedOverlays s)) \<and>
         keydownListener host s e = Inr (delivered s (last (attachedOverlays s)) e)"
proof -
  from assms(2) have "find (hit host e) (attachedOverlays s) = None"
    by (rule find_no_hit)
  with assms(1) have sel: "selectOverlayFromEvent host s e = Some (last (attachedOverlays s))"
    by (simp add: selectOverlayFromEvent_def array_at_last)
  from select_Some_listener [OF sel assms(1)] sel show ?thesis by simp
qed

theorem select_fallback_most_recent_witness:
  "attachedOverlays (add 3 (add 2 (add 1 init))) = [1, 2, 3] \<and>
   \<not> hit nested_host (key_at 99) 1 \<and>
   \<not> hit nested_host (key_at 99) 2 \<and>
   \<not> hit nested_host (key_at 99) 3 \<and>
   selectOverlayFromEvent nested_host (add 3 (add 2 (add 1 init))) (key_at 99) = Some 3"
proof -
  have reg: "attachedOverlays (add 3 (add 2 (add 1 init))) = [1, 2, 3]"
    by (simp add: add_registry init_def)
  have ne: "attachedOverlays (add 3 (add 2 (add 1 init))) \<noteq> []"
    using reg by simp
  have no: "\<forall>h \<in> set (attachedOverlays (add 3 (add 2 (add 1 init)))). \<not> hit nested_host (key_at 99) h"
    unfolding reg by (simp add: nested_host_def key_at_def)
  have miss: "\<not> hit nested_host (key_at 99) 1 \<and> \<not> hit nested_host (key_at 99) 2 \<and>
      \<not> hit nested_host (key_at 99) 3"
    by (simp add: nested_host_def key_at_def)
  from select_fallback_most_recent [OF ne no] reg miss show ?thesis by simp
qed

section \<open>Delivery\<close>

text \<open>
  C5. When the browser hands a keyboard event to the bound listener and the registry is
  not empty, the call returns without an error, the event is appended exactly once to the
  events of one overlay of the registry, the events of every other overlay are what they
  were, and the registry and the binding are untouched.
\<close>

theorem keydown_single_delivery:
  assumes "bodyKeydownCapture s" and "attachedOverlays s \<noteq> []"
  shows "\<exists>h \<in> set (attachedOverlays s). \<exists>s'.
           body_keydown host s e = Inr s' \<and>
           keydownEvents s' h = keydownEvents s h @ [e] \<and>
           (\<forall>h'. h' \<noteq> h \<longrightarrow> keydownEvents s' h' = keydownEvents s h') \<and>
           attachedOverlays s' = attachedOverlays s \<and>
           isAttached s' = isAttached s \<and>
           bodyKeydownCapture s' = bodyKeydownCapture s"
proof -
  have "\<exists>h \<in> set (attachedOverlays s). selectOverlayFromEvent host s e = Some h"
  proof (cases "\<exists>h \<in> set (attachedOverlays s). hit host e h")
    case True
    from find_first_split [of "attachedOverlays s" "hit host e", OF True]
    obtain pre h post where
      "attachedOverlays s = pre @ h # post" "find (hit host e) (attachedOverlays s) = Some h"
      by blast
    then have "h \<in> set (attachedOverlays s) \<and> selectOverlayFromEvent host s e = Some h"
      by (simp add: selectOverlayFromEvent_def)
    then show ?thesis by blast
  next
    case False
    then have "find (hit host e) (attachedOverlays s) = None"
      by (simp add: find_no_hit)
    with assms(2) have "selectOverlayFromEvent host s e = Some (last (attachedOverlays s))"
      by (simp add: selectOverlayFromEvent_def array_at_last)
    with assms(2) show ?thesis by auto
  qed
  then obtain h where h: "h \<in> set (attachedOverlays s)" "selectOverlayFromEvent host s e = Some h"
    by blast
  from select_Some_listener [OF h(2) assms(2)] assms(1)
  have "body_keydown host s e = Inr (delivered s h e)"
    by (simp add: body_keydown_def)
  with h(1) show ?thesis by auto
qed

theorem keydown_single_delivery_witness:
  "bodyKeydownCapture two_open \<and> attachedOverlays two_open \<noteq> [] \<and>
   (\<exists>h \<in> {1, 2}. \<exists>s'.
      body_keydown nested_host two_open (key_at 99) = Inr s' \<and>
      keydownEvents s' h = [key_at 99] \<and>
      (\<forall>h'. h' \<noteq> h \<longrightarrow> keydownEvents s' h' = []))"
proof -
  have b: "bodyKeydownCapture two_open" and ne: "attachedOverlays two_open \<noteq> []"
    by (simp_all add: two_open_def)
  have reg: "set (attachedOverlays two_open) = {1, 2}"
    and ev: "keydownEvents two_open = (\<lambda>_. [])"
    by (simp_all add: two_open_def)
  from keydown_single_delivery [OF b ne, of nested_host "key_at 99"] b ne
  show ?thesis unfolding reg ev append_Nil by blast
qed

text \<open>
  C9. When the listener receives an event while the registry is empty, it returns the
  state it was given: nothing is pushed into any subject and no error is raised. The
  guard on the length keeps the listener away from \<^verbatim>\<open>_selectOverlayFromEvent\<close>, which
  on an empty registry would read \<^verbatim>\<open>_attachedOverlays[-1]\<close> and give \<^verbatim>\<open>undefined\<close>.
\<close>

theorem keydown_empty_registry_dropped:
  assumes "attachedOverlays s = []"
  shows "keydownListener host s e = Inr s \<and> body_keydown host s e = Inr s \<and>
         selectOverlayFromEvent host s e = None"
  using assms
  by (simp add: keydownListener_def body_keydown_def selectOverlayFromEvent_def array_at_empty)

theorem keydown_empty_registry_dropped_witness:
  "attachedOverlays (remove 1 (add 1 init)) = [] \<and>
   keydownListener nested_host (remove 1 (add 1 init)) (key_at 11) = Inr (remove 1 (add 1 init))"
proof -
  have e: "attachedOverlays (remove 1 (add 1 init)) = []"
    by (simp add: remove_registry add_registry init_def)
  from keydown_empty_registry_dropped [OF e] e show ?thesis by simp
qed

section \<open>Registration and the life of the listener\<close>

text \<open>
  C3. Start from the state the constructor leaves and make any finite sequence of
  \<^verbatim>\<open>add\<close> and \<^verbatim>\<open>remove\<close> calls. After each call the listener is bound to the body exactly when
  the registry is not empty, and \<^verbatim>\<open>_isAttached\<close> is truthy exactly then as well.
\<close>

theorem listener_bound_iff_registry_nonempty:
  "\<forall>s \<in> set (states_after cs init).
     bodyKeydownCapture s = (attachedOverlays s \<noteq> []) \<and>
     truthy (isAttached s) = (attachedOverlays s \<noteq> [])"
proof
  fix s
  assume "s \<in> set (states_after cs init)"
  with states_after_lifecycle [of init s cs] init_lifecycle
  have "in_sync s \<and> bodyKeydownCapture s = (attachedOverlays s \<noteq> [])" by simp
  then show "bodyKeydownCapture s = (attachedOverlays s \<noteq> []) \<and>
     truthy (isAttached s) = (attachedOverlays s \<noteq> [])"
    by (simp add: in_sync_def)
qed

theorem listener_bound_iff_registry_nonempty_witness:
  "map (\<lambda>s. (bodyKeydownCapture s, attachedOverlays s))
       (states_after [Add 1, Add 2, Remove 1, Remove 2] init) =
     [(True, [1]), (True, [1, 2]), (True, [2]), (False, [])] \<and>
   map (\<lambda>s. bodyKeydownCapture s = (attachedOverlays s \<noteq> []))
       (states_after [Add 1, Add 2, Remove 1, Remove 2] init) =
     [True, True, True, True]"
  using listener_bound_iff_registry_nonempty [of "[Add 1, Add 2, Remove 1, Remove 2]"]
  unfolding states_after_example by simp

text \<open>
  C4. In a state whose flag agrees with the DOM, \<^verbatim>\<open>remove\<close> of an overlay that is not
  registered leaves the registry as it is (and the whole state, when an empty registry
  goes with an unbound listener, as it does in every reachable state); \<^verbatim>\<open>remove\<close> of a
  registered overlay deletes its first occurrence and keeps the entries before and after
  it in their order; the events of the overlays are untouched; and when the registry is
  empty afterwards the listener is no longer bound.
\<close>

theorem remove_first_occurrence:
  assumes "in_sync s"
  shows "(h \<notin> set (attachedOverlays s) \<longrightarrow>
            attachedOverlays (remove h s) = attachedOverlays s) \<and>
         (h \<notin> set (attachedOverlays s) \<and> (truthy (isAttached s) \<longrightarrow> attachedOverlays s \<noteq> []) \<longrightarrow>
            remove h s = s) \<and>
         (h \<in> set (attachedOverlays s) \<longrightarrow>
            (\<exists>pre post. attachedOverlays s = pre @ h # post \<and> h \<notin> set pre \<and>
                        attachedOverlays (remove h s) = pre @ post)) \<and>
         (attachedOverlays (remove h s) = [] \<longrightarrow>
            \<not> bodyKeydownCapture (remove h s) \<and> \<not> truthy (isAttached (remove h s))) \<and>
         keydownEvents (remove h s) = keydownEvents s"
proof -
  have a: "h \<notin> set (attachedOverlays s) \<longrightarrow> attachedOverlays (remove h s) = attachedOverlays s"
    by (simp add: remove_absent detach_registry)
  have b: "h \<notin> set (attachedOverlays s) \<and> (truthy (isAttached s) \<longrightarrow> attachedOverlays s \<noteq> []) \<longrightarrow>
            remove h s = s"
    by (auto simp: remove_absent detach_not_attached)
  have c: "h \<in> set (attachedOverlays s) \<longrightarrow>
            (\<exists>pre post. attachedOverlays s = pre @ h # post \<and> h \<notin> set pre \<and>
                        attachedOverlays (remove h s) = pre @ post)"
  proof
    assume "h \<in> set (attachedOverlays s)"
    from indexOf_from_present [OF this, of 0] obtain pre post where
      p: "attachedOverlays s = pre @ h # post" "h \<notin> set pre" by blast
    from remove_present [OF p] have "attachedOverlays (remove h s) = pre @ post"
      by (simp add: detach_registry)
    with p show "\<exists>pre post. attachedOverlays s = pre @ h # post \<and> h \<notin> set pre \<and>
                        attachedOverlays (remove h s) = pre @ post"
      by blast
  qed
  have d: "attachedOverlays (remove h s) = [] \<longrightarrow>
            \<not> bodyKeydownCapture (remove h s) \<and> \<not> truthy (isAttached (remove h s))"
    using remove_empty_unbinds [OF assms] by blast
  from a b c d show ?thesis by (simp add: remove_keydownEvents)
qed

theorem remove_first_occurrence_witness:
  "in_sync four_open \<and> 2 \<in> set (attachedOverlays four_open) \<and>
   attachedOverlays (remove 2 four_open) = [1, 3, 4]"
proof -
  have sync: "in_sync four_open" by (simp add: in_sync_def four_open_def)
  have reg: "attachedOverlays four_open = [1, 2, 3, 4]" by (simp add: four_open_def)
  from remove_first_occurrence [OF sync, of 2] reg obtain pre post where
    p: "[1, 2, 3, 4] = pre @ 2 # post" "(2::nat) \<notin> set pre"
       "attachedOverlays (remove 2 four_open) = pre @ post"
    by auto
  from p(1,2) have "pre = [1] \<and> post = [3, 4]"
    by (auto simp: Cons_eq_append_conv)
  with p(3) sync reg show ?thesis by simp
qed

text \<open>
  C7. The claim that no overlay is ever in the registry twice fails: \<^verbatim>\<open>add\<close> appends
  without looking, so two \<^verbatim>\<open>add\<close> calls with one overlay leave it there twice.
\<close>

theorem registry_duplicate_counterexample:
  "\<not> distinct (attachedOverlays (last (states_after [Add 1, Add 1] init)))"
  by (simp add: add_registry init_def)

text \<open>
  C7, amended. Along a sequence of \<^verbatim>\<open>add\<close> and \<^verbatim>\<open>remove\<close> calls from the initial state in
  which \<^verbatim>\<open>add\<close> is never called with an overlay that is in the registry at that moment,
  no overlay is in the registry twice after any call.
\<close>

theorem registry_distinct_when_adds_fresh:
  assumes "adds_fresh cs init"
  shows "\<forall>s \<in> set (states_after cs init). distinct (attachedOverlays s)"
proof
  fix s
  assume "s \<in> set (states_after cs init)"
  moreover have "distinct (attachedOverlays init)" by (simp add: init_def)
  ultimately show "distinct (attachedOverlays s)"
    using assms states_after_distinct by blast
qed

theorem registry_distinct_when_adds_fresh_witness:
  "adds_fresh [Add 1, Add 2, Remove 1, Add 1] init \<and>
   map attachedOverlays (states_after [Add 1, Add 2, Remove 1, Add 1] init) =
     [[1], [1, 2], [2], [2, 1]] \<and>
   list_all (\<lambda>s. distinct (attachedOverlays s))
     (states_after [Add 1, Add 2, Remove 1, Add 1] init)"
proof -
  have f: "adds_fresh [Add 1, Add 2, Remove 1, Add 1] init"
    by (simp add: add_registry remove_registry init_def)
  have l: "map attachedOverlays (states_after [Add 1, Add 2, Remove 1, Add 1] init) =
      [[1], [1, 2], [2], [2, 1]]"
    by (simp add: add_registry remove_registry init_def)
  from registry_distinct_when_adds_fresh [OF f] f l show ?thesis
    by (simp only: list_all_iff)
qed

text \<open>
  C10. Two \<^verbatim>\<open>add\<close> calls with the same overlay put it at the last two positions of the
  registry. One \<^verbatim>\<open>remove\<close> of it then deletes only the first occurrence: the overlay is
  still registered (exactly once if it was not registered before the two calls), and the
  listener stays bound.
\<close>

theorem double_add_single_remove:
  assumes "in_sync s"
  shows "attachedOverlays (add h (add h s)) = attachedOverlays s @ [h, h] \<and>
         attachedOverlays (remove h (add h (add h s))) = remove1 h (attachedOverlays s @ [h, h]) \<and>
         (h \<notin> set (attachedOverlays s) \<longrightarrow>
            attachedOverlays (remove h (add h (add h s))) = attachedOverlays s @ [h]) \<and>
         h \<in> set (attachedOverlays (remove h (add h (add h s)))) \<and>
         bodyKeydownCapture (remove h (add h (add h s))) \<and>
         truthy (isAttached (remove h (add h (add h s))))"
proof -
  let ?s2 = "add h (add h s)"
  have reg2: "attachedOverlays ?s2 = attachedOverlays s @ [h, h]"
    by (simp add: add_registry)
  have reg3: "attachedOverlays (remove h ?s2) = remove1 h (attachedOverlays s @ [h, h])"
    by (simp add: remove_registry reg2)
  have fresh: "h \<notin> set (attachedOverlays s) \<longrightarrow>
      attachedOverlays (remove h ?s2) = attachedOverlays s @ [h]"
    by (simp add: reg3 remove1_append)
  have mem: "h \<in> set (attachedOverlays (remove h ?s2))"
    by (simp add: reg3 remove1_append)
  then have ne: "attachedOverlays (remove h ?s2) \<noteq> []" by auto
  have "in_sync (add h s)" using assms by (rule add_in_sync)
  then have "bodyKeydownCapture ?s2 \<and> truthy (isAttached ?s2)" by (rule add_bound)
  with remove_flags [OF ne]
  have bound: "bodyKeydownCapture (remove h ?s2) \<and> truthy (isAttached (remove h ?s2))"
    by simp
  from reg2 reg3 fresh mem bound show ?thesis by blast
qed

theorem double_add_single_remove_witness:
  "in_sync init \<and>
   attachedOverlays (add 7 (add 7 init)) = [7, 7] \<and>
   attachedOverlays (remove 7 (add 7 (add 7 init))) = [7] \<and>
   bodyKeydownCapture (remove 7 (add 7 (add 7 init)))"
proof -
  have sync: "in_sync init" by (simp add: in_sync_def init_def)
  have reg: "attachedOverlays init = []" by (simp add: init_def)
  from double_add_single_remove [OF sync, of 7] sync show ?thesis
    by (simp add: reg)
qed

section \<open>Teardown\<close>

text \<open>
  C6. The claim that \<^verbatim>\<open>ngOnDestroy\<close> clears the registry fails: it only calls
  \<^verbatim>\<open>_detach\<close>, which never writes \<^verbatim>\<open>_attachedOverlays\<close>.
\<close>

theorem ngOnDestroy_keeps_registry_counterexample:
  "attachedOverlays (ngOnDestroy (add 1 init)) \<noteq> []"
  by (simp add: ngOnDestroy_def detach_registry add_registry)

text \<open>
  C6, amended. In every state whose flag agrees with the DOM, the registry empty or
  not, \<^verbatim>\<open>ngOnDestroy\<close> leaves the listener unbound and \<^verbatim>\<open>_isAttached\<close> falsy, and leaves the
  registry and the events of the overlays as they were.
\<close>

theorem ngOnDestroy_unbinds_keeps_registry:
  assumes "in_sync s"
  shows "\<not> bodyKeydownCapture (ngOnDestroy s) \<and>
         \<not> truthy (isAttached (ngOnDestroy s)) \<and>
         attachedOverlays (ngOnDestroy s) = attachedOverlays s \<and>
         keydownEvents (ngOnDestroy s) = keydownEvents s"
  using detach_unbinds [OF assms]
  by (simp add: ngOnDestroy_def detach_registry detach_keydownEvents)

theorem ngOnDestroy_unbinds_keeps_registry_witness:
  "in_sync two_open \<and> bodyKeydownCapture two_open \<and>
   \<not> bodyKeydownCapture (ngOnDestroy two_open) \<and>
   attachedOverlays (ngOnDestroy two_open) = [1, 2]"
proof -
  have sync: "in_sync two_open" by (simp add: in_sync_def two_open_def)
  from ngOnDestroy_unbinds_keeps_registry [OF sync] sync show ?thesis
    by (simp add: two_open_def)
qed

text \<open>
  C8. \<^verbatim>\<open>ngOnDestroy\<close> twice gives the state that \<^verbatim>\<open>ngOnDestroy\<close> once gives; the method
  has no failing branch; and where \<^verbatim>\<open>_isAttached\<close> is falsy, as right after the
  constructor, it changes nothing.
\<close>

theorem ngOnDestroy_idempotent:
  "ngOnDestroy (ngOnDestroy s) = ngOnDestroy s \<and>
   (\<not> truthy (isAttached s) \<longrightarrow> ngOnDestroy s = s) \<and>
   ngOnDestroy init = init"
  by (simp add: ngOnDestroy_def detach_def init_def)

theorem ngOnDestroy_idempotent_witness:
  "ngOnDestroy (ngOnDestroy two_open) = ngOnDestroy two_open \<and>
   ngOnDestroy two_open = two_open\<lparr>bodyKeydownCapture := False, isAttached := Some False\<rparr> \<and>
   \<not> truthy (isAttached init) \<and> ngOnDestroy init = init"
  using ngOnDestroy_idempotent [of two_open] ngOnDestroy_idempotent [of init]
  by (simp add: ngOnDestroy_def detach_def two_open_def init_def)

end
